theory Spec2Isabelle
  imports Complex_Main "HOL-Library.Multiset" "HOL-Library.Char_ord"
    "HOL-Library.List_Lexorder" "HOL-Library.Product_Lexorder"
begin

section \<open>Publisher profile components (frontend)\<close>

text \<open>
  The three React components of \<^verbatim>\<open>src/unnamed/part_000\<close> are embedded as functions from
  their props to a description of what they render. JavaScript numbers are modelled by
  the reals: arithmetic is exact, rounding to binary64 is not modelled. The types
  \<^verbatim>\<open>PublisherResponse\<close> and \<^verbatim>\<open>ActivityEvent\<close> are declared outside the
  sources; the records below carry the fields the components read.
\<close>

datatype icon = Award | ShieldCheck | ShieldAlert | BarChart2 | CheckCircle | XCircle | FileCode | Clock

subsection \<open>PublisherStats\<close>

record publisher_response =
  totalContracts :: real
  verifiedContracts :: real
  failedVerifications :: real

text \<open>
  \<^verbatim>\<open>const successRate = publisher.totalContracts > 0
     ? (publisher.verifiedContracts / publisher.totalContracts) * 100 : 0;\<close>
\<close>

definition successRate :: "publisher_response \<Rightarrow> real" where
  "successRate publisher =
     (if totalContracts publisher > 0
      then (verifiedContracts publisher / totalContracts publisher) * 100
      else 0)"

definition getSuccessColor :: "real \<Rightarrow> string" where
  "getSuccessColor rate =
     (if rate \<ge> 70 then ''text-green-600 bg-green-50 dark:bg-green-900/20''
      else if rate \<ge> 40 then ''text-yellow-600 bg-yellow-50 dark:bg-yellow-900/20''
      else ''text-red-600 bg-red-50 dark:bg-red-900/20'')"

text \<open>
  \<^verbatim>\<open>Number.prototype.toFixed(fractionDigits)\<close> as ECMAScript defines it on the
  mathematical value of a finite number: a minus sign for \<open>x < 0\<close>, then, below
  \<open>10^21\<close>, the integer \<open>n\<close> nearest to \<open>x * 10^f\<close> (the larger one on a tie),
  written in decimal, padded with zeros to \<open>f + 1\<close> digits, with the point before the
  last \<open>f\<close> digits. From \<open>10^21\<close> on the method returns the number's own string
  conversion, which is a parameter here (\<open>numberToString\<close>).
\<close>

definition digit_char :: "nat \<Rightarrow> char" where
  "digit_char d = ''0123456789'' ! (d mod 10)"

function decimal :: "nat \<Rightarrow> string" where
  "decimal n = (if n < 10 then [digit_char n] else decimal (n div 10) @ [digit_char n])"
  by pat_completeness auto
termination
  by (relation "measure id") auto

definition toFixed :: "(real \<Rightarrow> string) \<Rightarrow> nat \<Rightarrow> real \<Rightarrow> string" where
  "toFixed numberToString f x =
     (let s = (if x < 0 then ''-'' else '''');
          y = (if x < 0 then - x else x)
      in if y \<ge> 10 ^ 21 then s @ numberToString y
         else
           let n = nat \<lfloor>y * 10 ^ f + 1 / 2\<rfloor>;
               m = decimal n;
               m' = (if f \<noteq> 0 \<and> length m \<le> f then replicate (f + 1 - length m) (CHR ''0'') @ m else m)
           in if f \<noteq> 0
              then s @ take (length m' - f) m' @ ''.'' @ drop (length m' - f) m'
              else s @ m')"

datatype stat_value = Num real | Str string

record stat_item =
  label :: string
  item_value :: stat_value
  item_icon :: icon
  color :: string

definition statItems :: "(real \<Rightarrow> string) \<Rightarrow> publisher_response \<Rightarrow> stat_item list" where
  "statItems numberToString publisher =
     [\<lparr>label = ''Total Contracts'', item_value = Num (totalContracts publisher),
        item_icon = BarChart2, color = ''text-blue-600 bg-blue-50 dark:bg-blue-900/20''\<rparr>,
      \<lparr>label = ''Verification Success'',
        item_value = Str (toFixed numberToString 1 (successRate publisher) @ ''%''),
        item_icon = Award, color = getSuccessColor (successRate publisher)\<rparr>,
      \<lparr>label = ''Verified Contracts'', item_value = Num (verifiedContracts publisher),
        item_icon = ShieldCheck, color = ''text-green-600 bg-green-50 dark:bg-green-900/20''\<rparr>,
      \<lparr>label = ''Failed Verifications'', item_value = Num (failedVerifications publisher),
        item_icon = ShieldAlert, color = ''text-red-600 bg-red-50 dark:bg-red-900/20''\<rparr>]"

text \<open>The component renders one card per item, in the order of \<open>statItems\<close>.\<close>

definition PublisherStats :: "(real \<Rightarrow> string) \<Rightarrow> publisher_response \<Rightarrow> stat_item list" where
  "PublisherStats numberToString publisher = statItems numberToString publisher"

subsection \<open>VerificationBadge\<close>

record badge_config =
  icon :: icon
  text' :: string
  className :: string

definition verified :: badge_config where
  "verified = \<lparr>icon = CheckCircle, text' = ''Verified'',
     className = ''bg-green-100 text-green-800 border-green-200 dark:bg-green-900/30 dark:text-green-300 dark:border-green-800''\<rparr>"

definition failed :: badge_config where
  "failed = \<lparr>icon = XCircle, text' = ''Failed'',
     className = ''bg-red-100 text-red-800 border-red-200 dark:bg-red-900/30 dark:text-red-300 dark:border-red-800''\<rparr>"

definition pending :: badge_config where
  "pending = \<lparr>icon = Clock, text' = ''Pending'',
     className = ''bg-yellow-100 text-yellow-800 border-yellow-200 dark:bg-yellow-900/30 dark:text-yellow-300 dark:border-yellow-800''\<rparr>"

text \<open>
  \<open>config\<close> is an object literal, so \<^verbatim>\<open>config[status]\<close> is a property read through the
  prototype chain: one of the three own properties, else a property that every object
  inherits from \<^verbatim>\<open>Object.prototype\<close> (functions, and the prototype object itself for
  \<^verbatim>\<open>__proto__\<close>), else \<^verbatim>\<open>undefined\<close>. Only \<^verbatim>\<open>undefined\<close> is falsy among these.
\<close>

datatype js_value = Undefined | Config badge_config | Inherited string

definition object_prototype_keys :: "string list" where
  "object_prototype_keys =
     [''constructor'', ''hasOwnProperty'', ''isPrototypeOf'', ''propertyIsEnumerable'',
      ''toLocaleString'', ''toString'', ''valueOf'', ''__proto__'',
      ''__defineGetter__'', ''__defineSetter__'', ''__lookupGetter__'', ''__lookupSetter__'']"

definition config :: "string \<Rightarrow> js_value" where
  "config status =
     (if status = ''verified'' then Config verified
      else if status = ''failed'' then Config failed
      else if status = ''pending'' then Config pending
      else if status \<in> set object_prototype_keys then Inherited status
      else Undefined)"

fun truthy :: "js_value \<Rightarrow> bool" where
  "truthy Undefined = False"
| "truthy (Config c) = True"
| "truthy (Inherited k) = True"

text \<open>\<^verbatim>\<open>config[status] || config.pending\<close>\<close>

definition selected :: "string \<Rightarrow> js_value" where
  "selected status = (if truthy (config status) then config status else Config pending)"

text \<open>
  \<^verbatim>\<open>const { icon: Icon, text, className } = ...\<close>: a property the value does not have is
  \<^verbatim>\<open>undefined\<close> (\<open>None\<close>). No member of \<^verbatim>\<open>Object.prototype\<close> has a property named
  \<^verbatim>\<open>icon\<close>, \<^verbatim>\<open>text\<close> or \<^verbatim>\<open>className\<close>.
\<close>

record badge_view =
  view_icon :: "icon option"
  view_text :: "string option"
  view_className :: "string option"

fun destructure :: "js_value \<Rightarrow> badge_view" where
  "destructure (Config c) =
     \<lparr>view_icon = Some (icon c), view_text = Some (text' c), view_className = Some (className c)\<rparr>"
| "destructure (Inherited k) = \<lparr>view_icon = None, view_text = None, view_className = None\<rparr>"
| "destructure Undefined = \<lparr>view_icon = None, view_text = None, view_className = None\<rparr>"

definition VerificationBadge :: "string \<Rightarrow> badge_view" where
  "VerificationBadge status = destructure (selected status)"

subsection \<open>PublisherActivityTimeline\<close>

record activity_event =
  id' :: string
  type' :: string
  contractName :: string
  timestamp :: string

text \<open>
  \<^verbatim>\<open>new Date(s).getTime()\<close> is the time value of the date in milliseconds, an integer,
  or \<^verbatim>\<open>NaN\<close> when \<open>s\<close> is not a date. The parser belongs to the runtime and is a
  parameter \<open>getTime\<close>; \<open>None\<close> stands for \<^verbatim>\<open>NaN\<close>.

  The comparator is \<^verbatim>\<open>(a, b) => new Date(b.timestamp).getTime() - new Date(a.timestamp).getTime()\<close>;
  a difference with a \<^verbatim>\<open>NaN\<close> operand is \<^verbatim>\<open>NaN\<close>. The difference of two time values
  has the sign of the exact difference, and the sort reads only the sign.
\<close>

definition compareFn :: "(string \<Rightarrow> int option) \<Rightarrow> activity_event \<Rightarrow> activity_event \<Rightarrow> int option" where
  "compareFn getTime a b =
     (case getTime (timestamp b) of
        None \<Rightarrow> None
      | Some tb \<Rightarrow> (case getTime (timestamp a) of None \<Rightarrow> None | Some ta \<Rightarrow> Some (tb - ta)))"

text \<open>
  \<^verbatim>\<open>Array.prototype.sort\<close>: ECMAScript's SortCompare calls the comparator and reads
  \<^verbatim>\<open>NaN\<close> as \<open>+0\<close>. The sort is stable, and for a consistent comparator its result
  is the one stable sorted arrangement, which insertion from the right computes. For a
  comparator that is not consistent the standard leaves the order to the implementation;
  insertion is then one admissible order.
\<close>

definition sortCompare :: "('a \<Rightarrow> 'a \<Rightarrow> int option) \<Rightarrow> 'a \<Rightarrow> 'a \<Rightarrow> int" where
  "sortCompare comparator x y = (case comparator x y of None \<Rightarrow> 0 | Some v \<Rightarrow> v)"

fun insert_sorted :: "('a \<Rightarrow> 'a \<Rightarrow> int) \<Rightarrow> 'a \<Rightarrow> 'a list \<Rightarrow> 'a list" where
  "insert_sorted c x [] = [x]"
| "insert_sorted c x (y # ys) = (if c x y \<le> 0 then x # y # ys else y # insert_sorted c x ys)"

definition array_sort :: "('a \<Rightarrow> 'a \<Rightarrow> int option) \<Rightarrow> 'a list \<Rightarrow> 'a list" where
  "array_sort comparator xs = foldr (insert_sorted (sortCompare comparator)) xs []"

text \<open>
  Arrays are objects with identity: the heap is the list of the arrays allocated so far,
  and a reference is an index into it. \<^verbatim>\<open>[...activity]\<close> allocates a new array with the
  elements of \<open>activity\<close>; \<^verbatim>\<open>.sort\<close> sorts the array it is called on in place and returns
  the same reference.
\<close>

type_synonym heap = "activity_event list list"

definition spread :: "heap \<Rightarrow> nat \<Rightarrow> nat \<times> heap" where
  "spread h r = (length h, h @ [h ! r])"

definition sort_in_place :: "(activity_event \<Rightarrow> activity_event \<Rightarrow> int option) \<Rightarrow> heap \<Rightarrow> nat \<Rightarrow> nat \<times> heap" where
  "sort_in_place comparator h r = (r, h[r := array_sort comparator (h ! r)])"

record event_view =
  ev_key :: string
  ev_icon :: icon
  ev_colorClass :: string
  ev_title :: string
  ev_contractName :: string
  ev_time :: string

text \<open>
  One timeline entry. The label of the \<^verbatim>\<open><time>\<close> element is the timestamp's age
  against the clock; the entry keeps the timestamp it is computed from.
\<close>

definition render_event :: "activity_event \<Rightarrow> event_view" where
  "render_event event =
     (if type' event = ''verification_success''
      then \<lparr>ev_key = id' event, ev_icon = CheckCircle,
             ev_colorClass = ''bg-green-100 text-green-600 dark:bg-green-900/30 dark:text-green-400'',
             ev_title = ''Verification Success'',
             ev_contractName = contractName event, ev_time = timestamp event\<rparr>
      else if type' event = ''verification_failed''
      then \<lparr>ev_key = id' event, ev_icon = XCircle,
             ev_colorClass = ''bg-red-100 text-red-600 dark:bg-red-900/30 dark:text-red-400'',
             ev_title = ''Verification Failed'',
             ev_contractName = contractName event, ev_time = timestamp event\<rparr>
      else \<lparr>ev_key = id' event, ev_icon = FileCode,
             ev_colorClass = ''bg-blue-100 text-blue-600 dark:bg-blue-900/30 dark:text-blue-400'',
             ev_title = ''Published Contract'',
             ev_contractName = contractName event, ev_time = timestamp event\<rparr>)"

datatype timeline = Entries "event_view list" | NoRecentActivity

definition render_timeline :: "activity_event list \<Rightarrow> timeline" where
  "render_timeline sortedActivity =
     (if length sortedActivity > 0 then Entries (map render_event sortedActivity)
      else NoRecentActivity)"

datatype js_error = TypeError

text \<open>
  The component, given the heap and the reference in the \<open>activity\<close> prop. A prop that is
  no array cannot be spread: \<^verbatim>\<open>TypeError\<close>.
\<close>

definition PublisherActivityTimeline ::
  "(string \<Rightarrow> int option) \<Rightarrow> heap \<Rightarrow> nat \<Rightarrow> js_error + timeline \<times> heap" where
  "PublisherActivityTimeline getTime h activity =
     (if activity < length h
      then (let (copy, h1) = spread h activity;
                (sortedActivity, h2) = sort_in_place (compareFn getTime) h1 copy
            in Inr (render_timeline (h2 ! sortedActivity), h2))
      else Inl TypeError)"

text \<open>
  Descending order of timestamp, with JavaScript's \<^verbatim>\<open>>=\<close> on numbers: a comparison
  with \<^verbatim>\<open>NaN\<close> is false.
\<close>

definition ge_number :: "int option \<Rightarrow> int option \<Rightarrow> bool" where
  "ge_number a b = (case a of None \<Rightarrow> False | Some x \<Rightarrow> (case b of None \<Rightarrow> False | Some y \<Rightarrow> x \<ge> y))"

definition descending :: "(string \<Rightarrow> int option) \<Rightarrow> activity_event list \<Rightarrow> bool" where
  "descending getTime es =
     sorted_wrt (\<lambda>a b. ge_number (getTime (timestamp a)) (getTime (timestamp b))) es"

definition sample_getTime :: "string \<Rightarrow> int option" where
  "sample_getTime s =
     (if s = ''2024-01-01T00:00:00.000Z'' then Some 1704067200000
      else if s = ''2024-01-02T00:00:00.000Z'' then Some 1704153600000
      else None)"

definition sample_event :: "string \<Rightarrow> string \<Rightarrow> activity_event" where
  "sample_event i t = \<lparr>id' = i, type' = ''contract_published'', contractName = ''token'', timestamp = t\<rparr>"

section \<open>Dependency graph engine\<close>

text \<open>
  The engine of the specification (reference extraction, graph store, cycle detection,
  queries, result cache, publication) is not among the source files; the pull request
  description \<^verbatim>\<open>src/pull_request.md\<close> announces it. The definitions of this section
  are written from the specification's sections 3 and 4.
\<close>

subsection \<open>Data model\<close>

text \<open>
  Modelled from the spec: the identifiers of section 3. A version node is identified by
  its pair (contractId, versionLabel); pairs of strings are ordered lexicographically,
  strings character by character.
\<close>

type_synonym contract_id = string

type_synonym version_label = string

type_synonym version_node = "contract_id \<times> version_label"

text \<open>Modelled from the spec: ContractVersion, (contractId, versionLabel, interfaceHash).\<close>

record contract_version =
  contractId :: contract_id
  versionLabel :: version_label
  interfaceHash :: string

text \<open>Modelled from the spec: referenceKind, one of interface, client, import.\<close>

datatype reference_kind = Interface | Client | Import

text \<open>
  Modelled from the spec: DependencyEdge, (fromVersion, toContractId, referenceKind),
  directed from the dependent version to the contract it depends on.
\<close>

record dependency_edge =
  fromVersion :: version_node
  toContractId :: contract_id
  referenceKind :: reference_kind

text \<open>
  Modelled from the spec: GraphSnapshot, the graph at one committed epoch. The snapshot
  keeps its version nodes and its edges in insertion order; its forward and reverse
  index are the two groupings of the edge sequence, by source version and by target
  contract.
\<close>

record graph_snapshot =
  epoch :: nat
  versions :: "contract_version list"
  edges :: "dependency_edge list"

text \<open>Modelled from the spec: the key (contractId, versionLabel) of a ContractVersion.\<close>

definition node_of :: "contract_version \<Rightarrow> version_node" where
  "node_of cv = (contractId cv, versionLabel cv)"

text \<open>Modelled from the spec: the version nodes of a snapshot, in insertion order.\<close>

definition version_nodes :: "graph_snapshot \<Rightarrow> version_node list" where
  "version_nodes s = map node_of (versions s)"

text \<open>Modelled from the spec: the forward index, the edges that leave a version node.\<close>

definition forward_index :: "graph_snapshot \<Rightarrow> version_node \<Rightarrow> dependency_edge list" where
  "forward_index s v = filter (\<lambda>e. fromVersion e = v) (edges s)"

text \<open>Modelled from the spec: the reverse index, the edges that target a contract.\<close>

definition reverse_index :: "graph_snapshot \<Rightarrow> contract_id \<Rightarrow> dependency_edge list" where
  "reverse_index s c = filter (\<lambda>e. toContractId e = c) (edges s)"

text \<open>Modelled from the spec: the error taxonomy of section 7; a cycle error carries the path.\<close>

datatype engine_error =
    MalformedInterfaceError
  | DuplicateVersionError
  | CycleDetectedError "version_node list"
  | NotFoundError

subsection \<open>Query engine\<close>

text \<open>
  Modelled from the spec: the subject of a Dependents query, a contract identifier or a
  version node, and whether the snapshot holds it.
\<close>

datatype subject = OfContract contract_id | OfVersion version_node

fun subject_contract :: "subject \<Rightarrow> contract_id" where
  "subject_contract (OfContract c) = c"
| "subject_contract (OfVersion v) = fst v"

fun present :: "graph_snapshot \<Rightarrow> subject \<Rightarrow> bool" where
  "present s (OfContract c) = (c \<in> set (map fst (version_nodes s)))"
| "present s (OfVersion v) = (v \<in> set (version_nodes s))"

text \<open>
  Modelled from the spec: Dependents, the direct reverse edges of a contract or version
  node as pairs (fromVersion, referenceKind), in the order of the reverse index;
  NotFoundError when the subject is absent from the snapshot.
\<close>

definition Dependents ::
  "graph_snapshot \<Rightarrow> subject \<Rightarrow> engine_error + (version_node \<times> reference_kind) list" where
  "Dependents s subj =
     (if present s subj
      then Inr (map (\<lambda>e. (fromVersion e, referenceKind e)) (reverse_index s (subject_contract subj)))
      else Inl NotFoundError)"

text \<open>
  Modelled from the spec: one hop of the reverse traversal, the versions with an edge
  to the contract of \<open>v\<close>.
\<close>

definition dependents_of :: "graph_snapshot \<Rightarrow> version_node \<Rightarrow> version_node list" where
  "dependents_of s v = map fromVersion (reverse_index s (fst v))"

text \<open>
  Modelled from the spec: the breadth-first traversal of ImpactAnalysis, level by level.
  \<open>frontier\<close> holds the nodes found at \<open>depth\<close>, \<open>visited\<close> every node found so far.
  The next level is every dependent of the frontier that was not found before, once,
  ordered by (contractId, versionLabel); it is reported at \<open>depth + 1\<close>, and the
  traversal goes on from it until a level is empty.
\<close>

function bfs_levels ::
  "graph_snapshot \<Rightarrow> version_node list \<Rightarrow> version_node list \<Rightarrow> nat \<Rightarrow> (version_node \<times> nat) list" where
  "bfs_levels s frontier visited depth =
     (let next = sort (remdups (filter (\<lambda>w. w \<notin> set visited)
                                 (concat (map (dependents_of s) frontier))))
      in if next = [] then []
         else map (\<lambda>w. (w, Suc depth)) next @ bfs_levels s next (visited @ next) (Suc depth))"
  by pat_completeness auto
termination
proof (relation "measure (\<lambda>(s, frontier, visited, depth).
                   card (set (map fromVersion (edges s)) - set visited))")
  show "wf (measure (\<lambda>(s, frontier, visited, depth).
                   card (set (map fromVersion (edges s)) - set visited)))"
    by simp
next
  fix s :: graph_snapshot and frontier visited :: "version_node list" and depth :: nat
    and nxt :: "version_node list"
  assume n: "nxt = sort (remdups (filter (\<lambda>w. w \<notin> set visited)
                                 (concat (map (dependents_of s) frontier))))"
    and ne: "nxt \<noteq> []"
  let ?U = "set (map fromVersion (edges s))"
  have sub: "set nxt \<subseteq> ?U - set visited"
    unfolding n by (auto simp: dependents_of_def reverse_index_def)
  from ne obtain w where w: "w \<in> set nxt"
    by (cases nxt) auto
  have "?U - set (visited @ nxt) \<subset> ?U - set visited"
    using sub w by auto
  then have "card (?U - set (visited @ nxt)) < card (?U - set visited)"
    by (intro psubset_card_mono) auto
  then show "((s, nxt, visited @ nxt, Suc depth), (s, frontier, visited, depth))
             \<in> measure (\<lambda>(s, frontier, visited, depth).
                   card (set (map fromVersion (edges s)) - set visited))"
    by simp
qed

text \<open>
  Modelled from the spec: ImpactAnalysis, the pairs (versionNode, depth) of the reverse
  closure of a version node, by ascending depth and by (contractId, versionLabel) within
  a depth; NotFoundError when the node is absent from the snapshot.
\<close>

definition ImpactAnalysis ::
  "graph_snapshot \<Rightarrow> version_node \<Rightarrow> engine_error + (version_node \<times> nat) list" where
  "ImpactAnalysis s v =
     (if v \<in> set (version_nodes s) then Inr (bfs_levels s [v] [v] 0) else Inl NotFoundError)"

text \<open>
  The relation the closure is measured against: \<open>w\<close> is a direct dependent of \<open>v\<close>
  when an edge leads from \<open>w\<close> to the contract of \<open>v\<close>. \<open>hops s v n\<close> are the nodes
  reached from \<open>v\<close> by \<open>n\<close> reverse edges, \<open>at_depth s v n\<close> those whose shortest such
  path has \<open>n\<close> edges.
\<close>

definition dependent_rel :: "graph_snapshot \<Rightarrow> (version_node \<times> version_node) set" where
  "dependent_rel s = {(v, w). \<exists>e\<in>set (edges s). fromVersion e = w \<and> toContractId e = fst v}"

definition hops :: "graph_snapshot \<Rightarrow> version_node \<Rightarrow> nat \<Rightarrow> version_node set" where
  "hops s v n = {w. (v, w) \<in> dependent_rel s ^^ n}"

definition at_depth :: "graph_snapshot \<Rightarrow> version_node \<Rightarrow> nat \<Rightarrow> version_node set" where
  "at_depth s v n = hops s v n - (\<Union>m<n. hops s v m)"

text \<open>The order of the result: ascending depth, then (contractId, versionLabel).\<close>

definition impact_before :: "version_node \<times> nat \<Rightarrow> version_node \<times> nat \<Rightarrow> bool" where
  "impact_before a b = (snd a < snd b \<or> (snd a = snd b \<and> fst a < fst b))"

text \<open>The example scenario of section 8: A; B with a client reference to A; C referencing B.\<close>

definition example_snapshot :: graph_snapshot where
  "example_snapshot =
     \<lparr>epoch = 3,
      versions = [\<lparr>contractId = ''A'', versionLabel = ''1'', interfaceHash = ''ha''\<rparr>,
                  \<lparr>contractId = ''B'', versionLabel = ''1'', interfaceHash = ''hb''\<rparr>,
                  \<lparr>contractId = ''C'', versionLabel = ''1'', interfaceHash = ''hc''\<rparr>],
      edges = [\<lparr>fromVersion = (''B'', ''1''), toContractId = ''A'', referenceKind = Client\<rparr>,
               \<lparr>fromVersion = (''C'', ''1''), toContractId = ''B'', referenceKind = Import\<rparr>]\<rparr>"

subsection \<open>Result cache\<close>

text \<open>Modelled from the spec: the query kinds, one per operation of the query engine.\<close>

datatype query_kind = DependenciesQuery | DependentsQuery | ImpactAnalysisQuery | ExportGraphQuery












subsection \<open>Publication coordinator\<close>






section \<open>The publisher components: theorems\<close>

subsection \<open>PublisherStats: the guarded success rate\<close>

lemma toFixed_1_zero: "toFixed numberToString 1 0 = ''0.0''"
  by (simp add: toFixed_def digit_char_def)

text \<open>
  Claim C8. When \<open>totalContracts\<close> is 0 the guard takes the else branch: the success
  rate is 0, no division happens, and the "Verification Success" card (the only card
  whose label is that) shows the text \<open>0.0%\<close>.
\<close>

theorem PublisherStats_zero_total:
  assumes "totalContracts publisher = 0"
  shows "successRate publisher = 0
       \<and> [item_value i. i \<leftarrow> PublisherStats numberToString publisher, label i = ''Verification Success'']
           = [Str ''0.0%'']"
  using assms toFixed_1_zero [of numberToString]
  by (simp add: successRate_def PublisherStats_def statItems_def)

theorem PublisherStats_zero_total_witness:
  "totalContracts \<lparr>totalContracts = 0, verifiedContracts = 3, failedVerifications = 1\<rparr> = 0
   \<and> successRate \<lparr>totalContracts = 0, verifiedContracts = 3, failedVerifications = 1\<rparr> = 0
   \<and> [item_value i. i \<leftarrow> PublisherStats (\<lambda>x. ''big'')
          \<lparr>totalContracts = 0, verifiedContracts = 3, failedVerifications = 1\<rparr>,
          label i = ''Verification Success''] = [Str ''0.0%'']"
  using PublisherStats_zero_total
          [of "\<lparr>totalContracts = 0, verifiedContracts = 3, failedVerifications = 1\<rparr>" "\<lambda>x. ''big''"]
  by simp

subsection \<open>VerificationBadge: the fallback\<close>

text \<open>
  How far the fallback \<^verbatim>\<open>|| config.pending\<close> reaches: the three statuses render their
  own configuration, and every other status that is not the name of a property inherited
  from \<^verbatim>\<open>Object.prototype\<close> renders the pending configuration.
\<close>

theorem VerificationBadge_fallback:
  "VerificationBadge ''verified'' = destructure (Config verified)
   \<and> VerificationBadge ''failed'' = destructure (Config failed)
   \<and> VerificationBadge ''pending'' = destructure (Config pending)
   \<and> (status \<notin> {''verified'', ''failed''} \<and> status \<notin> set object_prototype_keys
        \<longrightarrow> VerificationBadge status = destructure (Config pending))"
  by (simp add: VerificationBadge_def selected_def config_def)

theorem VerificationBadge_fallback_witness:
  "''unknown'' \<notin> {''verified'', ''failed''} \<and> ''unknown'' \<notin> set object_prototype_keys
   \<and> VerificationBadge ''unknown'' = destructure (Config pending)"
  using VerificationBadge_fallback [of "''unknown''"]
  by (simp add: object_prototype_keys_def)

text \<open>
  Claim C9. The claim is that every status other than the three falls back to the
  pending configuration, which is what \<^verbatim>\<open>|| config.pending\<close> is written for. The code
  misses the keys that \<open>config\<close> inherits: at the status \<^verbatim>\<open>constructor\<close>,
  \<^verbatim>\<open>config["constructor"]\<close> is the inherited function \<^verbatim>\<open>Object\<close>, which is truthy, so
  \<^verbatim>\<open>config.pending\<close> is not used and the badge gets no icon, no text and no class
  name.
\<close>

theorem VerificationBadge_constructor_not_pending:
  "selected ''constructor'' = Inherited ''constructor''
   \<and> VerificationBadge ''constructor'' \<noteq> destructure (Config pending)
   \<and> view_icon (VerificationBadge ''constructor'') = None
   \<and> view_text (VerificationBadge ''constructor'') = None
   \<and> view_className (VerificationBadge ''constructor'') = None"
  by (simp add: VerificationBadge_def selected_def config_def object_prototype_keys_def)

subsection \<open>PublisherActivityTimeline: the sorted copy\<close>

lemma insert_sorted_insort:
  assumes "getTime (timestamp x) \<noteq> None" and "\<forall>y\<in>set ys. getTime (timestamp y) \<noteq> None"
  shows "insert_sorted (sortCompare (compareFn getTime)) x ys
         = insort_key (\<lambda>e. - the (getTime (timestamp e))) x ys"
  using assms by (induction ys) (auto simp: sortCompare_def compareFn_def)

lemma array_sort_sort_key:
  assumes "\<forall>y\<in>set xs. getTime (timestamp y) \<noteq> None"
  shows "array_sort (compareFn getTime) xs = sort_key (\<lambda>e. - the (getTime (timestamp e))) xs"
  using assms
proof (induction xs)
  case Nil
  then show ?case by (simp add: array_sort_def)
next
  case (Cons x xs)
  let ?f = "\<lambda>e. - the (getTime (timestamp e))"
  from Cons have IH: "array_sort (compareFn getTime) xs = sort_key ?f xs"
    by simp
  have v: "\<forall>y\<in>set (sort_key ?f xs). getTime (timestamp y) \<noteq> None"
    using Cons.prems by simp
  have "array_sort (compareFn getTime) (x # xs)
        = insert_sorted (sortCompare (compareFn getTime)) x (array_sort (compareFn getTime) xs)"
    by (simp add: array_sort_def)
  also have "\<dots> = insort_key ?f x (sort_key ?f xs)"
    unfolding IH using Cons.prems v by (intro insert_sorted_insort) auto
  finally show ?case by simp
qed

lemma descending_sort_key:
  assumes "\<forall>y\<in>set xs. getTime (timestamp y) \<noteq> None"
  shows "descending getTime (sort_key (\<lambda>e. - the (getTime (timestamp e))) xs)"
proof -
  let ?f = "\<lambda>e. - the (getTime (timestamp e))"
  have "sorted (map ?f (sort_key ?f xs))"
    by (rule sorted_sort_key)
  then have s: "sorted_wrt (\<lambda>a b. ?f a \<le> ?f b) (sort_key ?f xs)"
    by (simp add: sorted_map)
  have "sorted_wrt (\<lambda>a b. ge_number (getTime (timestamp a)) (getTime (timestamp b))) (sort_key ?f xs)"
  proof (rule sorted_wrt_mono_rel [OF _ s])
    fix a b
    assume "a \<in> set (sort_key ?f xs)" "b \<in> set (sort_key ?f xs)" "?f a \<le> ?f b"
    with assms show "ge_number (getTime (timestamp a)) (getTime (timestamp b))"
      by (auto simp: ge_number_def split: option.splits)
  qed
  then show ?thesis by (simp add: descending_def)
qed

lemma PublisherActivityTimeline_unfold:
  assumes "activity < length h"
  shows "PublisherActivityTimeline getTime h activity
         = Inr (render_timeline (array_sort (compareFn getTime) (h ! activity)),
                h @ [array_sort (compareFn getTime) (h ! activity)])"
  using assms by (simp add: PublisherActivityTimeline_def spread_def sort_in_place_def)

text \<open>
  Claim C10, as amended. The component sorts a fresh copy: every array of the caller's
  heap, the \<open>activity\<close> array among them, is the same afterwards. When every timestamp
  is a date, the entries rendered are the events of \<open>activity\<close>, each as often as it
  occurs there, in descending order of timestamp.
\<close>

theorem PublisherActivityTimeline_sorts_copy:
  assumes "activity < length h"
  shows "\<exists>sortedActivity h'.
           PublisherActivityTimeline getTime h activity = Inr (render_timeline sortedActivity, h')
         \<and> h' ! activity = h ! activity
         \<and> take (length h) h' = h
         \<and> ((\<forall>e\<in>set (h ! activity). getTime (timestamp e) \<noteq> None)
              \<longrightarrow> mset sortedActivity = mset (h ! activity) \<and> descending getTime sortedActivity)"
proof -
  let ?s = "array_sort (compareFn getTime) (h ! activity)"
  have "PublisherActivityTimeline getTime h activity = Inr (render_timeline ?s, h @ [?s])"
    by (rule PublisherActivityTimeline_unfold [OF assms])
  moreover have "(h @ [?s]) ! activity = h ! activity"
    using assms by (simp add: nth_append)
  moreover have "take (length h) (h @ [?s]) = h"
    by simp
  moreover have "mset ?s = mset (h ! activity) \<and> descending getTime ?s"
    if "\<forall>e\<in>set (h ! activity). getTime (timestamp e) \<noteq> None"
    using that by (simp add: array_sort_sort_key descending_sort_key)
  ultimately show ?thesis by blast
qed

theorem PublisherActivityTimeline_sorts_copy_witness:
  "\<exists>sortedActivity h'.
     PublisherActivityTimeline sample_getTime
       [[sample_event ''1'' ''2024-01-01T00:00:00.000Z'',
         sample_event ''2'' ''2024-01-02T00:00:00.000Z'']] 0
       = Inr (render_timeline sortedActivity, h')
     \<and> h' ! 0 = [sample_event ''1'' ''2024-01-01T00:00:00.000Z'',
                  sample_event ''2'' ''2024-01-02T00:00:00.000Z'']
     \<and> take 1 h' = [[sample_event ''1'' ''2024-01-01T00:00:00.000Z'',
                       sample_event ''2'' ''2024-01-02T00:00:00.000Z'']]
     \<and> mset sortedActivity = mset [sample_event ''1'' ''2024-01-01T00:00:00.000Z'',
                                     sample_event ''2'' ''2024-01-02T00:00:00.000Z'']
     \<and> descending sample_getTime sortedActivity"
  using PublisherActivityTimeline_sorts_copy
          [of 0 "[[sample_event ''1'' ''2024-01-01T00:00:00.000Z'',
                   sample_event ''2'' ''2024-01-02T00:00:00.000Z'']]" sample_getTime]
  by (simp add: sample_getTime_def sample_event_def)

text \<open>
  The claim as stated fails when a timestamp is not a date: the comparator returns
  \<^verbatim>\<open>NaN\<close> against that event, the sort reads it as "equal", and an older event stays
  before a newer one.
\<close>

theorem PublisherActivityTimeline_invalid_date_order:
  "PublisherActivityTimeline sample_getTime
     [[sample_event ''1'' ''2024-01-01T00:00:00.000Z'',
       sample_event ''2'' ''not a date'',
       sample_event ''3'' ''2024-01-02T00:00:00.000Z'']] 0
   = Inr (render_timeline
            [sample_event ''1'' ''2024-01-01T00:00:00.000Z'',
             sample_event ''2'' ''not a date'',
             sample_event ''3'' ''2024-01-02T00:00:00.000Z''],
          [[sample_event ''1'' ''2024-01-01T00:00:00.000Z'',
            sample_event ''2'' ''not a date'',
            sample_event ''3'' ''2024-01-02T00:00:00.000Z''],
           [sample_event ''1'' ''2024-01-01T00:00:00.000Z'',
            sample_event ''2'' ''not a date'',
            sample_event ''3'' ''2024-01-02T00:00:00.000Z'']])
   \<and> \<not> descending sample_getTime
            [sample_event ''1'' ''2024-01-01T00:00:00.000Z'',
             sample_event ''2'' ''not a date'',
             sample_event ''3'' ''2024-01-02T00:00:00.000Z'']
   \<and> \<not> ge_number (sample_getTime ''2024-01-01T00:00:00.000Z'')
                    (sample_getTime ''2024-01-02T00:00:00.000Z'')"
  by (simp add: PublisherActivityTimeline_def spread_def sort_in_place_def array_sort_def
        sortCompare_def compareFn_def sample_getTime_def sample_event_def descending_def
        ge_number_def)

text \<open>
  Whatever order an implementation of the sort chooses for such an input, it is not the
  descending one: a list of two or more events, one of them with a timestamp that is not
  a date, is never in descending order.
\<close>

lemma invalid_date_never_descending:
  assumes bad: "e \<in> set es" "getTime (timestamp e) = None" and two: "2 \<le> length es"
  shows "\<not> descending getTime es"
proof
  assume d: "descending getTime es"
  from bad(1) obtain i where i: "i < length es" "es ! i = e"
    by (auto simp: in_set_conv_nth)
  from two i(1) obtain j where j: "j < length es" "j \<noteq> i"
    by (cases "i = 0") (auto intro: that [of 0] that [of 1])
  then consider "i < j" | "j < i"
    by linarith
  then show False
  proof cases
    case 1
    with d j(1) have "ge_number (getTime (timestamp (es ! i))) (getTime (timestamp (es ! j)))"
      unfolding descending_def by (simp add: sorted_wrt_iff_nth_less)
    with i(2) bad(2) show False
      by (simp add: ge_number_def)
  next
    case 2
    with d i(1) have "ge_number (getTime (timestamp (es ! j))) (getTime (timestamp (es ! i)))"
      unfolding descending_def by (simp add: sorted_wrt_iff_nth_less)
    with i(2) bad(2) show False
      by (simp add: ge_number_def split: option.splits)
  qed
qed

section \<open>The dependency graph engine: theorems\<close>

subsection \<open>Impact analysis\<close>

text \<open>The direct dependents that Dependents reports for a version node are its successors
  in \<open>dependent_rel\<close>.\<close>

lemma dependents_of_rel: "set (dependents_of s v) = dependent_rel s `` {v}"
proof (rule set_eqI)
  fix w
  have "w \<in> set (dependents_of s v)
        \<longleftrightarrow> (\<exists>e\<in>set (edges s). fromVersion e = w \<and> toContractId e = fst v)"
    unfolding dependents_of_def reverse_index_def by (simp add: image_iff) blast
  then show "w \<in> set (dependents_of s v) \<longleftrightarrow> w \<in> dependent_rel s `` {v}"
    by (simp add: dependent_rel_def)
qed

lemma Dependents_dependent_rel:
  assumes "Dependents s (OfVersion v) = Inr r"
  shows "set (map fst r) = dependent_rel s `` {v}"
proof -
  from assms have "r = map (\<lambda>e. (fromVersion e, referenceKind e)) (reverse_index s (fst v))"
    by (simp add: Dependents_def split: if_splits)
  then have "map fst r = dependents_of s v"
    by (simp add: dependents_of_def comp_def)
  then show ?thesis
    by (simp add: dependents_of_rel)
qed

lemma hops_0: "hops s v 0 = {v}"
  by (auto simp: hops_def)

lemma hops_Suc: "hops s v (Suc n) = dependent_rel s `` hops s v n"
  by (auto simp: hops_def)

lemma at_depth_0: "at_depth s v 0 = {v}"
  by (simp add: at_depth_def hops_0)

lemma at_depth_subset_hops: "at_depth s v n \<subseteq> hops s v n"
  by (auto simp: at_depth_def)

lemma hops_covered: "w \<in> hops s v n \<Longrightarrow> \<exists>m\<le>n. w \<in> at_depth s v m"
proof (induction n rule: less_induct)
  case (less n)
  show ?case
  proof (cases "w \<in> at_depth s v n")
    case True
    then show ?thesis by blast
  next
    case False
    with less.prems obtain m where "m < n" "w \<in> hops s v m"
      by (auto simp: at_depth_def)
    with less.IH [of m] obtain k where "k \<le> m" "w \<in> at_depth s v k"
      by blast
    with \<open>m < n\<close> show ?thesis
      by (intro exI [of _ k]) simp
  qed
qed

lemma at_depth_Suc_subset: "at_depth s v (Suc n) \<subseteq> dependent_rel s `` at_depth s v n"
proof
  fix w
  assume w: "w \<in> at_depth s v (Suc n)"
  then have "w \<in> dependent_rel s `` hops s v n"
    by (simp add: at_depth_def hops_Suc)
  then obtain u where u: "u \<in> hops s v n" "(u, w) \<in> dependent_rel s"
    by blast
  have "u \<in> at_depth s v n"
  proof (rule ccontr)
    assume "u \<notin> at_depth s v n"
    with u(1) obtain m where m: "m < n" "u \<in> hops s v m"
      by (auto simp: at_depth_def)
    with u(2) have "w \<in> hops s v (Suc m)"
      by (auto simp: hops_Suc)
    moreover have "Suc m < Suc n"
      using m(1) by simp
    ultimately show False
      using w unfolding at_depth_def by blast
  qed
  with u(2) show "w \<in> dependent_rel s `` at_depth s v n"
    by blast
qed

lemma at_depth_empty: "at_depth s v n = {} \<Longrightarrow> n \<le> m \<Longrightarrow> at_depth s v m = {}"
proof (induction m)
  case 0
  then show ?case by simp
next
  case (Suc m)
  show ?case
  proof (cases "n = Suc m")
    case True
    with Suc.prems show ?thesis by simp
  next
    case False
    with Suc have "at_depth s v m = {}" by simp
    with at_depth_Suc_subset [of s v m] show ?thesis by auto
  qed
qed

lemma next_level:
  assumes F: "set frontier = at_depth s v d"
    and V: "set visited = (\<Union>m\<le>d. hops s v m)"
  shows "dependent_rel s `` set frontier - set visited = at_depth s v (Suc d)"
proof (rule set_eqI, rule iffI)
  fix w
  assume "w \<in> dependent_rel s `` set frontier - set visited"
  then have a: "w \<in> dependent_rel s `` at_depth s v d" and b: "w \<notin> (\<Union>m\<le>d. hops s v m)"
    using F V by auto
  from a at_depth_subset_hops [of s v d] have "w \<in> hops s v (Suc d)"
    by (auto simp: hops_Suc)
  moreover from b have "w \<notin> (\<Union>m<Suc d. hops s v m)"
    by (auto simp: less_Suc_eq_le)
  ultimately show "w \<in> at_depth s v (Suc d)"
    by (simp add: at_depth_def)
next
  fix w
  assume w: "w \<in> at_depth s v (Suc d)"
  with at_depth_Suc_subset [of s v d] have "w \<in> dependent_rel s `` set frontier"
    using F by auto
  moreover from w have "w \<notin> (\<Union>m\<le>d. hops s v m)"
    by (auto simp: at_depth_def less_Suc_eq_le)
  ultimately show "w \<in> dependent_rel s `` set frontier - set visited"
    using V by simp
qed

lemma visited_next:
  "(\<Union>m\<le>d. hops s v m) \<union> at_depth s v (Suc d) = (\<Union>m\<le>Suc d. hops s v m)"
  by (auto simp: at_depth_def le_Suc_eq less_Suc_eq_le)

lemma set_next:
  "set (sort (remdups (filter (\<lambda>w. w \<notin> set visited) (concat (map (dependents_of s) frontier)))))
   = dependent_rel s `` set frontier - set visited"
proof -
  have "set (concat (map (dependents_of s) frontier)) = dependent_rel s `` set frontier"
    by (auto simp: dependents_of_rel)
  then show ?thesis
    by auto
qed

lemmas bfs_levels_unfold = bfs_levels.simps

declare bfs_levels.simps [simp del]

lemma bfs_levels_set:
  assumes "set frontier = at_depth s v d" and "set visited = (\<Union>m\<le>d. hops s v m)"
  shows "set (bfs_levels s frontier visited d) = {(w, n). d < n \<and> w \<in> at_depth s v n}"
  using assms
proof (induction s frontier visited d rule: bfs_levels.induct)
  case (1 s frontier visited depth)
  define nxt where "nxt = sort (remdups (filter (\<lambda>w. w \<notin> set visited)
                                 (concat (map (dependents_of s) frontier))))"
  have nxt: "set nxt = at_depth s v (Suc depth)"
    unfolding nxt_def set_next using "1.prems" by (rule next_level)
  show ?case
  proof (cases "nxt = []")
    case True
    with nxt have "at_depth s v (Suc depth) = {}" by simp
    then have "\<And>n. depth < n \<Longrightarrow> at_depth s v n = {}"
      by (rule at_depth_empty) simp
    moreover have "bfs_levels s frontier visited depth = []"
      using True unfolding nxt_def by (subst bfs_levels_unfold) simp
    ultimately show ?thesis by auto
  next
    case False
    have vis: "set (visited @ nxt) = (\<Union>m\<le>Suc depth. hops s v m)"
      using "1.prems"(2) nxt visited_next [where d = depth and s = s and v = v] by simp
    have IH: "set (bfs_levels s nxt (visited @ nxt) (Suc depth))
              = {(w, n). Suc depth < n \<and> w \<in> at_depth s v n}"
      using "1.IH" [OF nxt_def False nxt vis] .
    have unf: "bfs_levels s frontier visited depth
               = map (\<lambda>w. (w, Suc depth)) nxt @ bfs_levels s nxt (visited @ nxt) (Suc depth)"
      using False unfolding nxt_def by (subst bfs_levels_unfold) (simp add: Let_def)
    have "{(w, n). depth < n \<and> w \<in> at_depth s v n}
          = (\<lambda>w. (w, Suc depth)) ` at_depth s v (Suc depth)
            \<union> {(w, n). Suc depth < n \<and> w \<in> at_depth s v n}"
    proof (rule set_eqI)
      fix p :: "version_node \<times> nat"
      obtain w n where p: "p = (w, n)"
        by (cases p)
      have "depth < n \<longleftrightarrow> n = Suc depth \<or> Suc depth < n"
        by arith
      then show "p \<in> {(w, n). depth < n \<and> w \<in> at_depth s v n}
                 \<longleftrightarrow> p \<in> (\<lambda>w. (w, Suc depth)) ` at_depth s v (Suc depth)
                       \<union> {(w, n). Suc depth < n \<and> w \<in> at_depth s v n}"
        unfolding p by blast
    qed
    then show ?thesis
      unfolding unf using IH nxt by simp
  qed
qed

lemma at_depth_disjoint: "w \<in> at_depth s v n \<Longrightarrow> w \<in> at_depth s v m \<Longrightarrow> n = m"
proof (rule ccontr)
  assume w: "w \<in> at_depth s v n" "w \<in> at_depth s v m" and "n \<noteq> m"
  then consider "n < m" | "m < n"
    by linarith
  then show False
  proof cases
    case 1
    with w show False
      using at_depth_subset_hops [of s v n] by (auto simp: at_depth_def)
  next
    case 2
    with w show False
      using at_depth_subset_hops [of s v m] by (auto simp: at_depth_def)
  qed
qed

lemma bfs_levels_sorted:
  assumes "set frontier = at_depth s v d" and "set visited = (\<Union>m\<le>d. hops s v m)"
  shows "sorted_wrt impact_before (bfs_levels s frontier visited d)
       \<and> distinct (map fst (bfs_levels s frontier visited d))"
  using assms
proof (induction s frontier visited d rule: bfs_levels.induct)
  case (1 s frontier visited depth)
  define nxt where "nxt = sort (remdups (filter (\<lambda>w. w \<notin> set visited)
                                 (concat (map (dependents_of s) frontier))))"
  have nxt: "set nxt = at_depth s v (Suc depth)"
    unfolding nxt_def set_next using "1.prems" by (rule next_level)
  show ?case
  proof (cases "nxt = []")
    case True
    then have "bfs_levels s frontier visited depth = []"
      unfolding nxt_def by (subst bfs_levels_unfold) simp
    then show ?thesis by simp
  next
    case False
    let ?rest = "bfs_levels s nxt (visited @ nxt) (Suc depth)"
    have vis: "set (visited @ nxt) = (\<Union>m\<le>Suc depth. hops s v m)"
      using "1.prems"(2) nxt visited_next [where d = depth and s = s and v = v] by simp
    have IH: "sorted_wrt impact_before ?rest \<and> distinct (map fst ?rest)"
      using "1.IH" [OF nxt_def False nxt vis] .
    have rest: "set ?rest = {(w, n). Suc depth < n \<and> w \<in> at_depth s v n}"
      using nxt vis by (rule bfs_levels_set)
    have unf: "bfs_levels s frontier visited depth = map (\<lambda>w. (w, Suc depth)) nxt @ ?rest"
      using False unfolding nxt_def by (subst bfs_levels_unfold) (simp add: Let_def)
    have strict: "sorted_wrt (<) nxt"
      unfolding nxt_def by (simp add: strict_sorted_iff)
    have first: "sorted_wrt impact_before (map (\<lambda>w. (w, Suc depth)) nxt)"
      using strict by (simp add: sorted_wrt_map impact_before_def)
    have cross: "impact_before x y"
      if "x \<in> set (map (\<lambda>w. (w, Suc depth)) nxt)" and "y \<in> set ?rest" for x y
      using that rest by (auto simp: impact_before_def)
    have dfirst: "distinct (map fst (map (\<lambda>w. (w, Suc depth)) nxt))"
      using strict by (simp add: strict_sorted_iff comp_def)
    have disj: "set (map fst (map (\<lambda>w. (w, Suc depth)) nxt)) \<inter> set (map fst ?rest) = {}"
    proof (rule ccontr)
      assume "set (map fst (map (\<lambda>w. (w, Suc depth)) nxt)) \<inter> set (map fst ?rest) \<noteq> {}"
      then obtain w n where "w \<in> set nxt" "(w, n) \<in> set ?rest"
        by (auto simp: comp_def)
      with nxt rest have "w \<in> at_depth s v (Suc depth)" "w \<in> at_depth s v n" "Suc depth < n"
        by auto
      then show False
        using at_depth_disjoint by fastforce
    qed
    show ?thesis
      unfolding unf using IH first cross dfirst disj
      by (simp add: sorted_wrt_append)
  qed
qed

lemma trancl_hops: "(v, w) \<in> (dependent_rel s)\<^sup>+ \<longleftrightarrow> (\<exists>n>0. w \<in> hops s v n)"
  unfolding hops_def trancl_power by simp

lemma impact_nodes:
  "{w. \<exists>n>0. w \<in> at_depth s v n} = {w. (v, w) \<in> (dependent_rel s)\<^sup>+ \<and> w \<noteq> v}"
proof (rule set_eqI, rule iffI)
  fix w
  assume "w \<in> {w. \<exists>n>0. w \<in> at_depth s v n}"
  then obtain n where n: "0 < n" "w \<in> at_depth s v n"
    by blast
  then have "w \<in> hops s v n" "w \<notin> hops s v 0"
    by (auto simp: at_depth_def)
  with n(1) show "w \<in> {w. (v, w) \<in> (dependent_rel s)\<^sup>+ \<and> w \<noteq> v}"
    by (auto simp: trancl_hops hops_0)
next
  fix w
  assume "w \<in> {w. (v, w) \<in> (dependent_rel s)\<^sup>+ \<and> w \<noteq> v}"
  then obtain n where "w \<in> hops s v n" and wv: "w \<noteq> v"
    by (auto simp: trancl_hops)
  then obtain m where m: "w \<in> at_depth s v m"
    using hops_covered by blast
  have "m \<noteq> 0"
  proof
    assume "m = 0"
    with m wv show False
      by (simp add: at_depth_0)
  qed
  with m show "w \<in> {w. \<exists>n>0. w \<in> at_depth s v n}"
    by blast
qed

text \<open>
  Claim C2. For a version node \<open>v\<close> of the snapshot, ImpactAnalysis returns the nodes
  reached from \<open>v\<close> by one or more reverse edges, the origin left out; in a snapshot
  where no path returns to \<open>v\<close> (the acyclicity invariant of committed snapshots) these
  are exactly the nodes reachable from \<open>v\<close>. Every node appears once, with the length of
  its shortest path from \<open>v\<close>, and the result is ordered by ascending depth, then by
  (contractId, versionLabel).
\<close>

theorem ImpactAnalysis_closure:
  assumes "v \<in> set (version_nodes s)"
  shows "\<exists>r. ImpactAnalysis s v = Inr r
       \<and> set (map fst r) = {w. (v, w) \<in> (dependent_rel s)\<^sup>+ \<and> w \<noteq> v}
       \<and> ((v, v) \<notin> (dependent_rel s)\<^sup>+ \<longrightarrow> set (map fst r) = {w. (v, w) \<in> (dependent_rel s)\<^sup>+})
       \<and> distinct (map fst r)
       \<and> (\<forall>(w, d)\<in>set r. (v, w) \<in> dependent_rel s ^^ d \<and> (\<forall>m<d. (v, w) \<notin> dependent_rel s ^^ m))
       \<and> sorted_wrt impact_before r"
proof -
  let ?r = "bfs_levels s [v] [v] 0"
  have F: "set [v] = at_depth s v 0"
    by (simp add: at_depth_0)
  have V: "set [v] = (\<Union>m\<le>0. hops s v m)"
    by (simp add: hops_0)
  have r: "set ?r = {(w, n). 0 < n \<and> w \<in> at_depth s v n}"
    using F V by (rule bfs_levels_set)
  have "fst ` set ?r = {w. \<exists>n>0. w \<in> at_depth s v n}"
  proof (rule set_eqI)
    fix w
    have "w \<in> fst ` set ?r \<longleftrightarrow> (\<exists>n. (w, n) \<in> set ?r)"
    proof
      assume "w \<in> fst ` set ?r"
      then obtain p where "p \<in> set ?r" "w = fst p"
        by (rule imageE)
      then have "(w, snd p) \<in> set ?r"
        by simp
      then show "\<exists>n. (w, n) \<in> set ?r" ..
    next
      assume "\<exists>n. (w, n) \<in> set ?r"
      then obtain n where "(w, n) \<in> set ?r" ..
      then have "fst (w, n) \<in> fst ` set ?r"
        by (rule imageI)
      then show "w \<in> fst ` set ?r"
        by simp
    qed
    also have "\<dots> \<longleftrightarrow> (\<exists>n>0. w \<in> at_depth s v n)"
      unfolding r by simp
    finally show "w \<in> fst ` set ?r \<longleftrightarrow> w \<in> {w. \<exists>n>0. w \<in> at_depth s v n}"
      by simp
  qed
  then have nodes: "set (map fst ?r) = {w. (v, w) \<in> (dependent_rel s)\<^sup>+ \<and> w \<noteq> v}"
    by (simp add: impact_nodes)
  have acyc: "(v, v) \<notin> (dependent_rel s)\<^sup>+
              \<longrightarrow> set (map fst ?r) = {w. (v, w) \<in> (dependent_rel s)\<^sup>+}"
    unfolding nodes by auto
  have depth: "\<forall>(w, d)\<in>set ?r. (v, w) \<in> dependent_rel s ^^ d \<and> (\<forall>m<d. (v, w) \<notin> dependent_rel s ^^ m)"
  proof (rule ballI)
    fix p
    assume p: "p \<in> set ?r"
    obtain w d where wd: "p = (w, d)"
      by (cases p)
    with p r have "w \<in> at_depth s v d"
      by simp
    then have "(v, w) \<in> dependent_rel s ^^ d \<and> (\<forall>m<d. (v, w) \<notin> dependent_rel s ^^ m)"
      by (simp add: at_depth_def hops_def)
    then show "case p of (w, d) \<Rightarrow>
                 (v, w) \<in> dependent_rel s ^^ d \<and> (\<forall>m<d. (v, w) \<notin> dependent_rel s ^^ m)"
      unfolding wd by simp
  qed
  have sd: "sorted_wrt impact_before ?r \<and> distinct (map fst ?r)"
    using F V by (rule bfs_levels_sorted)
  have res: "ImpactAnalysis s v = Inr ?r"
    using assms by (simp add: ImpactAnalysis_def)
  show ?thesis
  proof (intro exI [of _ ?r] conjI)
    show "ImpactAnalysis s v = Inr ?r" by (rule res)
    show "set (map fst ?r) = {w. (v, w) \<in> (dependent_rel s)\<^sup>+ \<and> w \<noteq> v}" by (rule nodes)
    show "(v, v) \<notin> (dependent_rel s)\<^sup>+
          \<longrightarrow> set (map fst ?r) = {w. (v, w) \<in> (dependent_rel s)\<^sup>+}" by (rule acyc)
    show "distinct (map fst ?r)" using sd by simp
    show "\<forall>(w, d)\<in>set ?r. (v, w) \<in> dependent_rel s ^^ d \<and> (\<forall>m<d. (v, w) \<notin> dependent_rel s ^^ m)"
      by (rule depth)
    show "sorted_wrt impact_before ?r" using sd by simp
  qed
qed

lemma example_impact:
  "ImpactAnalysis example_snapshot (''A'', ''1'') = Inr [((''B'', ''1''), 1), ((''C'', ''1''), 2)]"
  by code_simp

lemma example_acyclic: "(v, v) \<notin> (dependent_rel example_snapshot)\<^sup>+"
proof -
  define rank :: "version_node \<Rightarrow> nat"
    where "rank = (\<lambda>v. if fst v = ''A'' then 0 else if fst v = ''B'' then 1 else 2)"
  have "dependent_rel example_snapshot \<subseteq> measure rank"
    by (auto simp: dependent_rel_def example_snapshot_def rank_def split: if_splits)
  then have "wf (dependent_rel example_snapshot)"
    by (rule wf_subset [OF wf_measure])
  then have "acyclic (dependent_rel example_snapshot)"
    by (rule wf_acyclic)
  then show ?thesis
    unfolding acyclic_def by blast
qed

theorem ImpactAnalysis_closure_witness:
  "(''A'', ''1'') \<in> set (version_nodes example_snapshot)
   \<and> ((''A'', ''1''), (''A'', ''1'')) \<notin> (dependent_rel example_snapshot)\<^sup>+
   \<and> ImpactAnalysis example_snapshot (''A'', ''1'') = Inr [((''B'', ''1''), 1), ((''C'', ''1''), 2)]
   \<and> {w. ((''A'', ''1''), w) \<in> (dependent_rel example_snapshot)\<^sup>+} = {(''B'', ''1''), (''C'', ''1'')}
   \<and> ((''A'', ''1''), (''C'', ''1'')) \<in> dependent_rel example_snapshot ^^ 2
   \<and> ((''A'', ''1''), (''C'', ''1'')) \<notin> dependent_rel example_snapshot ^^ 1"
proof -
  have mem: "(''A'', ''1'') \<in> set (version_nodes example_snapshot)"
    by (simp add: version_nodes_def example_snapshot_def node_of_def)
  have acyc: "((''A'', ''1''), (''A'', ''1'')) \<notin> (dependent_rel example_snapshot)\<^sup>+"
    by (rule example_acyclic)
  from ImpactAnalysis_closure [OF mem] obtain r where
    r: "ImpactAnalysis example_snapshot (''A'', ''1'') = Inr r"
    and closure: "(((''A'', ''1''), (''A'', ''1'')) \<notin> (dependent_rel example_snapshot)\<^sup>+
       \<longrightarrow> set (map fst r) = {w. ((''A'', ''1''), w) \<in> (dependent_rel example_snapshot)\<^sup>+})"
    and depth: "\<forall>(w, d)\<in>set r. ((''A'', ''1''), w) \<in> dependent_rel example_snapshot ^^ d
       \<and> (\<forall>m<d. ((''A'', ''1''), w) \<notin> dependent_rel example_snapshot ^^ m)"
    by blast
  from r have r_eq: "r = [((''B'', ''1''), 1), ((''C'', ''1''), 2)]"
    by (simp add: example_impact)
  from closure acyc have "{w. ((''A'', ''1''), w) \<in> (dependent_rel example_snapshot)\<^sup>+}
      = {(''B'', ''1''), (''C'', ''1'')}"
    unfolding r_eq by simp
  moreover from depth have "((''A'', ''1''), (''C'', ''1'')) \<in> dependent_rel example_snapshot ^^ 2
      \<and> (\<forall>m<2. ((''A'', ''1''), (''C'', ''1'')) \<notin> dependent_rel example_snapshot ^^ m)"
    unfolding r_eq by simp
  then have "((''A'', ''1''), (''C'', ''1'')) \<in> dependent_rel example_snapshot ^^ 2
      \<and> ((''A'', ''1''), (''C'', ''1'')) \<notin> dependent_rel example_snapshot ^^ 1"
    by (metis one_less_numeral_iff semiring_norm(76))
  ultimately show ?thesis
    using mem acyc example_impact by blast
qed

subsection \<open>Cache coherence\<close>












end
